theory Spec2Isabelle
  imports Main "HOL-Library.Char_ord" "HOL-Library.List_Lexorder"
begin

section \<open>Strings\<close>

text \<open>
  A Python \<open>str\<close> is modelled as a \<open>string\<close> whose characters are read as the code
  points below 256.  On these, \<open>str.isspace\<close> holds of TAB to CR, FS to SPACE, NEL and
  NBSP, and \<open>str.lower\<close> moves the letters A to Z and the Latin-1 capitals (all of
  0xC0 to 0xDE but the multiplication sign) up by 32.  Strings are compared as Python
  compares them: lexicographically by code point.
\<close>

definition is_space :: "char \<Rightarrow> bool" where
  "is_space c =
     (let n = (of_char c :: nat)
      in (9 \<le> n \<and> n \<le> 13) \<or> (28 \<le> n \<and> n \<le> 32) \<or> n = 133 \<or> n = 160)"

definition strip :: "string \<Rightarrow> string" where
  "strip s = rev (dropWhile is_space (rev (dropWhile is_space s)))"

definition lower_char :: "char \<Rightarrow> char" where
  "lower_char c =
     (let n = (of_char c :: nat)
      in if (65 \<le> n \<and> n \<le> 90) \<or> (192 \<le> n \<and> n \<le> 222 \<and> n \<noteq> 215)
         then char_of (n + 32) else c)"

definition lower :: "string \<Rightarrow> string" where
  "lower s = map lower_char s"

text \<open>A string is trimmed when \<open>strip\<close> has nothing to remove from it.\<close>

definition trimmed :: "string \<Rightarrow> bool" where
  "trimmed s = (s = [] \<or> (\<not> is_space (hd s) \<and> \<not> is_space (last s)))"

text \<open>\<open>posixpath.dirname\<close>: everything up to the last slash, without trailing slashes
  unless it consists of slashes only.\<close>

definition dirname :: "string \<Rightarrow> string" where
  "dirname p =
     (let head = rev (dropWhile (\<lambda>c. c \<noteq> CHR ''/'') (rev p))
      in if head \<noteq> [] \<and> \<not> list_all (\<lambda>c. c = CHR ''/'') head
         then rev (dropWhile (\<lambda>c. c = CHR ''/'') (rev head))
         else head)"

section \<open>Dictionaries and JSON documents\<close>

text \<open>
  A Python \<open>dict\<close> keeps its keys in insertion order: it is an association list, where
  \<open>d[k] = v\<close> replaces the value of a key that is there in place and appends a new key.
\<close>

fun dict_set :: "('k \<times> 'v) list \<Rightarrow> 'k \<Rightarrow> 'v \<Rightarrow> ('k \<times> 'v) list" where
  "dict_set [] k v = [(k, v)]"
| "dict_set ((k', v') # d) k v =
     (if k' = k then (k, v) # d else (k', v') # dict_set d k v)"

definition dict_get :: "('k \<times> 'v) list \<Rightarrow> 'k \<Rightarrow> 'v option" where
  "dict_get d k = map_of d k"

definition dict_get_or :: "('k \<times> 'v) list \<Rightarrow> 'k \<Rightarrow> 'v \<Rightarrow> 'v" where
  "dict_get_or d k dflt = (case map_of d k of None \<Rightarrow> dflt | Some v \<Rightarrow> v)"

definition dict_has :: "('k \<times> 'v) list \<Rightarrow> 'k \<Rightarrow> bool" where
  "dict_has d k = (map_of d k \<noteq> None)"

definition dict_keys :: "('k \<times> 'v) list \<Rightarrow> 'k list" where
  "dict_keys d = map fst d"

text \<open>\<open>d.update(other)\<close> stores the items of \<open>other\<close> one after the other.\<close>

definition dict_update :: "('k \<times> 'v) list \<Rightarrow> ('k \<times> 'v) list \<Rightarrow> ('k \<times> 'v) list" where
  "dict_update d other = foldl (\<lambda>acc (k, v). dict_set acc k v) d other"

text \<open>
  What \<open>json.load\<close> returns and \<open>json.dump\<close> accepts.  Numbers are the integers
  (floating point numbers are left out of the model).
\<close>

datatype json =
    JNull
  | JBool bool
  | JInt int
  | JStr string
  | JArr "json list"
  | JObj "(string \<times> json) list"

section \<open>The files of the store\<close>

text \<open>
  A file holds either a text that \<open>json.load\<close> parses, given here as the document it
  parses to, or a text that makes it raise \<open>JSONDecodeError\<close> (an empty file is one).
  The file system maps a path to the file there, if any.  The data directory exists
  throughout (\<open>ensure_data_dir\<close>), so that opening a file in it for writing succeeds;
  input/output errors are not modelled.
\<close>

datatype content = Doc json | Unparsable

type_synonym files = "string \<Rightarrow> content option"

definition DATA_DIR :: string where
  "DATA_DIR = ''data''"

definition QUEUES_PATH :: string where
  "QUEUES_PATH = DATA_DIR @ ''/queues.json''"

definition LIVE_STATS_PATH :: string where
  "LIVE_STATS_PATH = DATA_DIR @ ''/live_stats.json''"

text \<open>The three steps of \<open>write_json\<close>: open the temporary file for writing (which
  creates it, or empties it), dump the document into it, and rename it onto the target.\<close>

definition open_w :: "string \<Rightarrow> files \<Rightarrow> files" where
  "open_w p fs = fs(p \<mapsto> Unparsable)"

definition json_dump :: "string \<Rightarrow> json \<Rightarrow> files \<Rightarrow> files" where
  "json_dump p d fs = fs(p \<mapsto> Doc d)"

definition os_replace :: "string \<Rightarrow> string \<Rightarrow> files \<Rightarrow> files" where
  "os_replace src dst fs = (fs(dst := fs src))(src := None)"

definition tmp_path :: "string \<Rightarrow> string" where
  "tmp_path path = path @ ''.tmp''"

definition write_json :: "string \<Rightarrow> json \<Rightarrow> files \<Rightarrow> files" where
  "write_json path d fs =
     os_replace (tmp_path path) path (json_dump (tmp_path path) d (open_w (tmp_path path) fs))"

text \<open>A call of \<open>write_json\<close> that is interrupted: the state of the files when it has
  not opened the temporary file yet, has opened it, or has written it but not renamed it.\<close>

datatype interruption = Before_open | Before_dump | Before_replace

fun write_json_interrupted :: "interruption \<Rightarrow> string \<Rightarrow> json \<Rightarrow> files \<Rightarrow> files" where
  "write_json_interrupted Before_open path d fs = fs"
| "write_json_interrupted Before_dump path d fs = open_w (tmp_path path) fs"
| "write_json_interrupted Before_replace path d fs =
     json_dump (tmp_path path) d (open_w (tmp_path path) fs)"

definition read_json :: "string \<Rightarrow> json \<Rightarrow> files \<Rightarrow> json \<times> files" where
  "read_json path dflt fs =
     (case fs path of
        None \<Rightarrow> (dflt, write_json path dflt fs)
      | Some Unparsable \<Rightarrow> (dflt, fs)
      | Some (Doc d) \<Rightarrow> (d, fs))"

section \<open>The live snapshot\<close>

definition get_live_stats :: "files \<Rightarrow> (string \<times> json) list \<times> files" where
  "get_live_stats fs =
     (let (stats, fs') = read_json LIVE_STATS_PATH (JObj []) fs
      in case stats of JObj d \<Rightarrow> (d, fs') | _ \<Rightarrow> ([], fs'))"

definition update_live_stats ::
  "(string \<times> json) list \<Rightarrow> files \<Rightarrow> (string \<times> json) list \<times> files" where
  "update_live_stats partial fs =
     (let (stats, fs') = get_live_stats fs;
          stats' = dict_update stats partial
      in (stats', write_json LIVE_STATS_PATH (JObj stats') fs'))"

text \<open>The defaults of \<open>init_seed_files\<close>; \<open>username\<close> is the value of the environment
  variable \<open>TIKTOK_USERNAME\<close>, the empty string when it is not set.\<close>

definition default_stats :: "string \<Rightarrow> (string \<times> json) list" where
  "default_stats username =
     [(''connected'', JBool False),
      (''viewers'', JInt 0),
      (''likes'', JInt 0),
      (''last_comment'', JNull),
      (''last_gift'', JNull),
      (''updated_at'', JNull),
      (''tiktok_username'', JStr username)]"

definition is_dict :: "json \<Rightarrow> bool" where
  "is_dict j = (case j of JObj _ \<Rightarrow> True | _ \<Rightarrow> False)"

definition seed_file :: "string \<Rightarrow> json \<Rightarrow> files \<Rightarrow> files" where
  "seed_file path dflt fs =
     (if fs path = None then write_json path dflt fs
      else let (data, fs') = read_json path dflt fs
           in if \<not> is_dict data then write_json path dflt fs' else fs')"

definition init_seed_files :: "string \<Rightarrow> files \<Rightarrow> files" where
  "init_seed_files username fs =
     seed_file LIVE_STATS_PATH (JObj (default_stats username))
       (seed_file QUEUES_PATH (JObj []) fs)"

section \<open>The waitlists\<close>

text \<open>
  \<open>sorted(list({str(u).strip(): None for u in users}.keys()))\<close>: the comprehension
  stores the stripped names as the keys of a dictionary, which drops the repetitions.
  What \<open>str\<close> makes of an entry that is not a string is a parameter \<open>str_of\<close> of the
  model (a string is left as it is).  The tables in memory hold lists of strings.
\<close>

definition py_str :: "(json \<Rightarrow> string) \<Rightarrow> json \<Rightarrow> string" where
  "py_str str_of u = (case u of JStr s \<Rightarrow> s | _ \<Rightarrow> str_of u)"

definition normalize_users :: "string list \<Rightarrow> string list" where
  "normalize_users users =
     sort (dict_keys (foldl (\<lambda>d u. dict_set d (strip u) ()) [] users))"

definition get_queues :: "(json \<Rightarrow> string) \<Rightarrow> files \<Rightarrow> (string \<times> string list) list \<times> files" where
  "get_queues str_of fs =
     (let (data, fs') = read_json QUEUES_PATH (JObj []) fs
      in case data of
           JObj items \<Rightarrow>
             (foldl (\<lambda>normalized (game, users).
                       dict_set normalized game
                         (case users of
                            JArr us \<Rightarrow> normalize_users (map (py_str str_of) us)
                          | _ \<Rightarrow> []))
                    [] items,
              fs')
         | _ \<Rightarrow> ([], fs'))"

definition queues_doc :: "(string \<times> string list) list \<Rightarrow> json" where
  "queues_doc queues = JObj (map (\<lambda>(game, users). (game, JArr (map JStr users))) queues)"

definition save_queues :: "(string \<times> string list) list \<Rightarrow> files \<Rightarrow> files" where
  "save_queues queues fs =
     write_json QUEUES_PATH
       (queues_doc (foldl (\<lambda>normalized (game, users).
                             dict_set normalized (strip game) (normalize_users users))
                          [] queues))
       fs"

text \<open>\<open>sorted\<close> of a set of strings: its elements in ascending order, each once.\<close>

definition py_sorted :: "string set \<Rightarrow> string list" where
  "py_sorted users = sorted_list_of_set users"

definition add_to_queue :: "(json \<Rightarrow> string) \<Rightarrow> string \<Rightarrow> string \<Rightarrow> files \<Rightarrow> files" where
  "add_to_queue str_of game username fs =
     (let (queues, fs') = get_queues str_of fs;
          game_key = lower (strip game);
          username_key = strip username;
          users = insert username_key (set (dict_get_or queues game_key []))
      in save_queues (dict_set queues game_key (py_sorted users)) fs')"

definition remove_from_queue ::
  "(json \<Rightarrow> string) \<Rightarrow> string \<Rightarrow> string \<Rightarrow> files \<Rightarrow> bool \<times> files" where
  "remove_from_queue str_of game username fs =
     (let (queues, fs') = get_queues str_of fs;
          game_key = lower (strip game);
          username_key = strip username
      in case dict_get queues game_key of
           None \<Rightarrow> (False, fs')
         | Some users \<Rightarrow>
             if username_key \<notin> set users then (False, fs')
             else (True,
                   save_queues (dict_set queues game_key
                                  (filter (\<lambda>u. u \<noteq> username_key) users)) fs'))"

definition clear_queue :: "(json \<Rightarrow> string) \<Rightarrow> string \<Rightarrow> files \<Rightarrow> files" where
  "clear_queue str_of game fs =
     (let (queues, fs') = get_queues str_of fs
      in save_queues (dict_set queues (lower (strip game)) []) fs')"

text \<open>The list a query of one category shows (\<open>cmd_queue\<close>):
  \<open>get_queues().get(game.strip().lower(), [])\<close>.\<close>

definition cmd_queue :: "(json \<Rightarrow> string) \<Rightarrow> string \<Rightarrow> files \<Rightarrow> string list \<times> files" where
  "cmd_queue str_of game fs =
     (let (queues, fs') = get_queues str_of fs
      in (dict_get_or queues (lower (strip game)) [], fs'))"

section \<open>Notions for the statements about the waitlists\<close>

text \<open>
  The loops of \<open>get_queues\<close> and \<open>save_queues\<close> on their own: the table a document
  is read as, and the table that is written for a table in memory.
\<close>

definition load_table :: "(json \<Rightarrow> string) \<Rightarrow> (string \<times> json) list \<Rightarrow> (string \<times> string list) list" where
  "load_table str_of items =
     foldl (\<lambda>normalized (game, users).
              dict_set normalized game
                (case users of
                   JArr us \<Rightarrow> normalize_users (map (py_str str_of) us)
                 | _ \<Rightarrow> []))
           [] items"

definition store_table :: "(string \<times> string list) list \<Rightarrow> (string \<times> string list) list" where
  "store_table queues =
     foldl (\<lambda>normalized (game, users).
              dict_set normalized (strip game) (normalize_users users))
           [] queues"

text \<open>
  A list of entrants is normal when it is sorted, without repetition, and made of trimmed
  names; a table is normal when its keys are distinct and its lists are normal.  The keys
  of the stored table are trimmed when the file, if it holds an object, has only trimmed
  keys: \<open>save_queues\<close> strips the keys it writes and the seeded table is empty, so every
  table that the store has written is of this kind.
\<close>

definition normal_list :: "string list \<Rightarrow> bool" where
  "normal_list us = (sorted us \<and> distinct us \<and> list_all trimmed us)"

definition normal_table :: "(string \<times> string list) list \<Rightarrow> bool" where
  "normal_table q = (distinct (map fst q) \<and> list_all (\<lambda>(g, us). normal_list us) q)"

definition trimmed_keys :: "files \<Rightarrow> bool" where
  "trimmed_keys fs =
     (case fs QUEUES_PATH of
        Some (Doc (JObj items)) \<Rightarrow> list_all trimmed (map fst items)
      | _ \<Rightarrow> True)"

text \<open>
  A sequence of calls of the four operations, as the command handlers and the dashboard
  issue them (\<open>Listing\<close> is a call of \<open>get_queues\<close>), and the property that the file
  holds exactly the table that \<open>get_queues\<close> returns.
\<close>

datatype waitlist_op = Add string string | Remove string string | Clear string | Listing

fun apply_op :: "(json \<Rightarrow> string) \<Rightarrow> waitlist_op \<Rightarrow> files \<Rightarrow> files" where
  "apply_op r (Add game username) fs = add_to_queue r game username fs"
| "apply_op r (Remove game username) fs = snd (remove_from_queue r game username fs)"
| "apply_op r (Clear game) fs = clear_queue r game fs"
| "apply_op r Listing fs = snd (get_queues r fs)"

definition run_ops :: "(json \<Rightarrow> string) \<Rightarrow> waitlist_op list \<Rightarrow> files \<Rightarrow> files" where
  "run_ops r ops fs = foldl (\<lambda>fs' op. apply_op r op fs') fs ops"

definition stored_canonical :: "(json \<Rightarrow> string) \<Rightarrow> files \<Rightarrow> bool" where
  "stored_canonical r fs =
     (case fs QUEUES_PATH of
        None \<Rightarrow> True
      | Some c \<Rightarrow> c = Doc (queues_doc (fst (get_queues r fs))))"


section \<open>The listener\<close>

text \<open>
  What \<open>run_tiktok_listener\<close> takes from its surroundings: the channel name in
  \<open>TIKTOK_USERNAME\<close>, whether the \<open>TikTokLive\<close> package could be imported, what \<open>int\<close>
  makes of a string (\<open>None\<close> when it raises), and the successive readings of the clock
  by \<open>_now_iso\<close>.
\<close>

record env =
  tiktok_username :: string
  client_installed :: bool
  int_of_str :: "string \<Rightarrow> int option"
  now_iso :: "nat \<Rightarrow> string"

text \<open>The files, and how often the clock has been read.\<close>

record world =
  disk :: files
  clock_reads :: nat

text \<open>
  An event as its handler sees it: the values of the attributes the handler asks for,
  where \<open>JNull\<close> stands for an attribute that is \<open>None\<close> or not there.  Only for
  \<open>count\<close> on a like does the handler tell the two apart (\<open>getattr(event, "count", 1)\<close>).
  A user that is there comes with its \<open>uniqueId\<close> and \<open>nickname\<close>, a gift that is there
  with its \<open>name\<close>.  The arguments are: of \<open>Viewer_count\<close>, \<open>viewerCount\<close> and
  \<open>viewers\<close>; of \<open>Like\<close>, \<open>totalLikes\<close>, \<open>likeCount\<close> and \<open>count\<close>; of \<open>Comment\<close>,
  \<open>user\<close> and \<open>comment\<close>; of \<open>Gift\<close>, \<open>gift\<close>, \<open>repeatCount\<close>, \<open>count\<close> and \<open>user\<close>.
\<close>

datatype event =
    Connect
  | Disconnect
  | Viewer_count json json
  | Like json json "json option"
  | Comment "(json \<times> json) option" json
  | Gift "json option" json json "(json \<times> json) option"

text \<open>
  The call \<open>asyncio.wait_for(asyncio.sleep(delay), timeout=timeout)\<close>, cancelled
  from outside while it waits or not.  \<open>wait_for\<close> arms its timeout before the sleep
  begins, so of two equal durations the timeout is the first to expire: the sleep is
  then cancelled and \<open>TimeoutError\<close> is raised.  The sleep is waited out only under a
  longer timeout.
\<close>

datatype wait_result = Elapsed | Wait_cancelled | Wait_timed_out

definition wait_for_sleep :: "nat \<Rightarrow> nat \<Rightarrow> bool \<Rightarrow> wait_result" where
  "wait_for_sleep delay timeout cancelled =
     (if cancelled then Wait_cancelled
      else if timeout \<le> delay then Wait_timed_out
      else Elapsed)"

text \<open>
  How a session ends: \<open>client.start()\<close> raises an \<open>Exception\<close>, returns, or is
  cancelled (\<open>CancelledError\<close>, which is not an \<open>Exception\<close>).  After a failure the loop
  waits in \<open>asyncio.wait_for(asyncio.sleep(5), timeout=5)\<close>; \<open>Fails\<close> says whether the
  listener is cancelled during that wait.  A session of the script also says whether the
  stop event is found set when the loop comes to it.
\<close>

datatype ending = Fails bool | Closes | Cancelled

record session =
  stop_set :: bool
  events :: "event list"
  ending :: ending

text \<open>What the listener does, in order, and how it ends.  The script of sessions is
  finite: \<open>Awaiting_session\<close> says that the loop has used it up and goes on.\<close>

datatype action = Started | Merged "(string \<times> json) list" | Waited nat wait_result

datatype outcome =
    No_username
  | No_client
  | Stopped_at_entry
  | Stopped_in_backoff
  | Cancelled_in_session
  | Closed
  | Raised_timeout
  | Awaiting_session

text \<open>One call \<open>update_live_stats({..., "updated_at": _now_iso(), ...})\<close>.\<close>

definition merge :: "env \<Rightarrow> (json \<Rightarrow> (string \<times> json) list) \<Rightarrow> world \<Rightarrow> action list \<times> world" where
  "merge e partial w =
     (let p = partial (JStr (now_iso e (clock_reads w)))
      in ([Merged p],
          \<lparr>disk = snd (update_live_stats p (disk w)), clock_reads = Suc (clock_reads w)\<rparr>))"

definition mark_disconnected :: "env \<Rightarrow> world \<Rightarrow> action list \<times> world" where
  "mark_disconnected e w =
     merge e (\<lambda>now. [(''connected'', JBool False), (''updated_at'', now)]) w"

definition truthy :: "json \<Rightarrow> bool" where
  "truthy j =
     (case j of
        JNull \<Rightarrow> False
      | JBool b \<Rightarrow> b
      | JInt i \<Rightarrow> i \<noteq> 0
      | JStr s \<Rightarrow> s \<noteq> []
      | JArr xs \<Rightarrow> xs \<noteq> []
      | JObj kvs \<Rightarrow> kvs \<noteq> [])"

definition py_or :: "json \<Rightarrow> json \<Rightarrow> json" where
  "py_or a b = (if truthy a then a else b)"

text \<open>\<open>isinstance(x, int)\<close> holds of the integers and of the booleans, which count as
  0 and 1; \<open>int(x)\<close> also reads a string, and raises on the other values.\<close>

definition as_int :: "json \<Rightarrow> int option" where
  "as_int j =
     (case j of
        JInt i \<Rightarrow> Some i
      | JBool b \<Rightarrow> Some (if b then 1 else 0)
      | _ \<Rightarrow> None)"

definition is_int :: "json \<Rightarrow> bool" where
  "is_int j = (as_int j \<noteq> None)"

definition py_int :: "env \<Rightarrow> json \<Rightarrow> int option" where
  "py_int e j =
     (case j of
        JInt i \<Rightarrow> Some i
      | JBool b \<Rightarrow> Some (if b then 1 else 0)
      | JStr s \<Rightarrow> int_of_str e s
      | _ \<Rightarrow> None)"

definition user_name :: "(json \<times> json) option \<Rightarrow> json" where
  "user_name u = (case u of None \<Rightarrow> JNull | Some (uniqueId, nickname) \<Rightarrow> py_or uniqueId nickname)"

text \<open>
  The handlers.  \<open>like_counter\<close> is the counter of the current client, \<open>None\<close> at first.
  The handlers of the viewer count, likes, comments and gifts swallow every exception;
  the one that the model has is \<open>int\<close> raising on the increment of a like, after the
  counter has been set to 0 if it was \<open>None\<close>.
\<close>

fun handle :: "env \<Rightarrow> event \<Rightarrow> int option \<times> world \<Rightarrow> action list \<times> int option \<times> world" where
  "handle e Connect (like_counter, w) =
     (let (acts, w') =
            merge e (\<lambda>now. [(''connected'', JBool True), (''updated_at'', now),
                             (''tiktok_username'', JStr (tiktok_username e))]) w
      in (acts, like_counter, w'))"
| "handle e Disconnect (like_counter, w) =
     (let (acts, w') = mark_disconnected e w in (acts, like_counter, w'))"
| "handle e (Viewer_count viewerCount viewers) (like_counter, w) =
     (let v = (if viewerCount = JNull then viewers else viewerCount)
      in if is_int v
         then let (acts, w') = merge e (\<lambda>now. [(''viewers'', v), (''updated_at'', now)]) w
              in (acts, like_counter, w')
         else ([], like_counter, w))"
| "handle e (Like total_likes like_count count_attr) (like_counter, w) =
     (case as_int total_likes of
        Some n \<Rightarrow>
          let (acts, w') = merge e (\<lambda>now. [(''likes'', JInt n), (''updated_at'', now)]) w
          in (acts, Some n, w')
      | None \<Rightarrow>
          let increment =
                 (if is_int like_count then like_count
                  else py_or (case count_attr of None \<Rightarrow> JInt 1 | Some c \<Rightarrow> c) (JInt 1));
               counter = (case like_counter of None \<Rightarrow> 0 | Some n \<Rightarrow> n)
           in case py_int e increment of
                None \<Rightarrow> ([], Some counter, w)
              | Some i \<Rightarrow>
                  let (acts, w') =
                        merge e (\<lambda>now. [(''likes'', JInt (counter + i)), (''updated_at'', now)]) w
                  in (acts, Some (counter + i), w'))"
| "handle e (Comment user text) (like_counter, w) =
     (let data = JObj [(''user'', user_name user), (''comment'', text)];
          (acts, w') = merge e (\<lambda>now. [(''last_comment'', data), (''updated_at'', now)]) w
      in (acts, like_counter, w'))"
| "handle e (Gift gift_attr repeat_count count_attr user) (like_counter, w) =
     (let gift_name = (case gift_attr of None \<Rightarrow> JNull | Some name \<Rightarrow> name);
          repeat = (if repeat_count = JNull then count_attr else repeat_count);
          data = JObj [(''user'', user_name user), (''gift'', gift_name),
                       (''repeat_count'', repeat)];
          (acts, w') = merge e (\<lambda>now. [(''last_gift'', data), (''updated_at'', now)]) w
      in (acts, like_counter, w'))"

fun handle_all :: "env \<Rightarrow> event list \<Rightarrow> int option \<times> world \<Rightarrow> action list \<times> int option \<times> world" where
  "handle_all e [] (like_counter, w) = ([], like_counter, w)"
| "handle_all e (ev # evs) (like_counter, w) =
     (let (acts, like_counter', w') = handle e ev (like_counter, w);
          (acts', like_counter'', w'') = handle_all e evs (like_counter', w')
      in (acts @ acts', like_counter'', w''))"

text \<open>
  One turn of the \<open>while True\<close> loop, from the stop check to the end of the \<open>try\<close>
  statement; \<open>None\<close> stands for \<open>continue\<close>.  The \<open>finally\<close> clause runs on every way
  out of the \<open>try\<close> statement, also on \<open>continue\<close> and on the \<open>return\<close> of the handler of
  the cancelled wait.
\<close>

definition turn :: "env \<Rightarrow> session \<Rightarrow> world \<Rightarrow> action list \<times> world \<times> outcome option" where
  "turn e s w =
     (if stop_set s then ([], w, Some Stopped_at_entry)
      else
        let (acts, like_counter, w1) = handle_all e (events s) (None, w)
        in case ending s of
             Fails cancelled \<Rightarrow>
               let (a2, w2) = mark_disconnected e w1;
                   wait = wait_for_sleep 5 5 cancelled;
                   (a3, w3) = mark_disconnected e w2
               in (Started # acts @ a2 @ [Waited 5 wait] @ a3, w3,
                   case wait of
                     Elapsed \<Rightarrow> None
                   | Wait_cancelled \<Rightarrow> Some Stopped_in_backoff
                   | Wait_timed_out \<Rightarrow> Some Raised_timeout)
           | Closes \<Rightarrow>
               let (a2, w2) = mark_disconnected e w1
               in (Started # acts @ a2, w2, Some Closed)
           | Cancelled \<Rightarrow>
               let (a2, w2) = mark_disconnected e w1
               in (Started # acts @ a2, w2, Some Cancelled_in_session))"

fun reconnect_loop :: "env \<Rightarrow> session list \<Rightarrow> world \<Rightarrow> action list \<times> world \<times> outcome" where
  "reconnect_loop e [] w = ([], w, Awaiting_session)"
| "reconnect_loop e (s # ss) w =
     (case turn e s w of
        (acts, w', Some out) \<Rightarrow> (acts, w', out)
      | (acts, w', None) \<Rightarrow>
          let (acts', w'', out) = reconnect_loop e ss w' in (acts @ acts', w'', out))"

definition run_tiktok_listener :: "env \<Rightarrow> session list \<Rightarrow> world \<Rightarrow> action list \<times> world \<times> outcome" where
  "run_tiktok_listener e ss w =
     (if tiktok_username e = []
      then let (acts, w') =
                 merge e (\<lambda>now. [(''connected'', JBool False), (''updated_at'', now),
                                  (''tiktok_username'', JStr [])]) w
           in (acts, w', No_username)
      else if \<not> client_installed e
      then let (acts, w') =
                 merge e (\<lambda>now. [(''connected'', JBool False), (''updated_at'', now),
                                  (''tiktok_username'', JStr (tiktok_username e))]) w
           in (acts, w', No_client)
      else reconnect_loop e ss w)"

text \<open>What an action shows of the connection, and the \<open>connected\<close> field of the stored
  snapshot.\<close>

datatype observation =
    Connection_attempt
  | Merge_connected bool
  | Merge_other
  | Wait nat wait_result

fun observe :: "action \<Rightarrow> observation" where
  "observe Started = Connection_attempt"
| "observe (Merged p) =
     (case map_of p ''connected'' of
        Some (JBool b) \<Rightarrow> Merge_connected b
      | _ \<Rightarrow> Merge_other)"
| "observe (Waited n r) = Wait n r"

definition connected_field :: "world \<Rightarrow> json option" where
  "connected_field w = dict_get (fst (get_live_stats (disk w))) ''connected''"

text \<open>A session in which the connection fails before any event, with nobody cancelling
  the listener during the wait that follows.\<close>

definition failed_session :: session where
  "failed_session = \<lparr>stop_set = False, events = [], ending = Fails False\<rparr>"

text \<open>The world after one such session: \<open>connected: false\<close> has been merged twice.\<close>

definition after_failure :: "env \<Rightarrow> world \<Rightarrow> world" where
  "after_failure e w = snd (mark_disconnected e (snd (mark_disconnected e w)))"

text \<open>
  Examples: a configured listener whose clock reads \<open>t\<close>, \<open>tt\<close>, \<open>ttt\<close> and so on; a
  world without files; and a world whose snapshot says \<open>connected: true\<close>, as a listener
  that was killed while it was connected leaves it.
\<close>

definition example_env :: env where
  "example_env =
     \<lparr>tiktok_username = ''streamer'', client_installed = True,
      int_of_str = (\<lambda>s. None), now_iso = (\<lambda>n. replicate (Suc n) CHR ''t'')\<rparr>"

definition fresh_world :: world where
  "fresh_world = \<lparr>disk = Map.empty, clock_reads = 0\<rparr>"

definition stale_world :: world where
  "stale_world =
     \<lparr>disk = write_json LIVE_STATS_PATH
               (JObj [(''connected'', JBool True), (''viewers'', JInt 7),
                      (''updated_at'', JStr ''2024-05-01T10:00:00+00:00'')])
               Map.empty,
      clock_reads = 0\<rparr>"

section \<open>Strings: properties\<close>

lemma is_space_lower_char [simp]: "is_space (lower_char c) = is_space c"
  by (auto simp: is_space_def lower_char_def Let_def)

lemma rtrim_prefix: "\<exists>zs. t = rev (dropWhile P (rev t)) @ zs"
proof -
  have "rev t = takeWhile P (rev t) @ dropWhile P (rev t)" by simp
  then have "t = rev (takeWhile P (rev t) @ dropWhile P (rev t))" by (metis rev_rev_ident)
  then show ?thesis by (metis rev_append)
qed

lemma trimmed_strip [simp]: "trimmed (strip s)"
proof (cases "strip s = []")
  case True then show ?thesis by (simp add: trimmed_def)
next
  case False
  let ?t = "dropWhile is_space s"
  from False have ne: "dropWhile is_space (rev ?t) \<noteq> []" by (simp add: strip_def)
  then have l: "\<not> is_space (hd (dropWhile is_space (rev ?t)))" by (rule hd_dropWhile)
  have last: "last (strip s) = hd (dropWhile is_space (rev ?t))"
    using ne by (simp add: strip_def last_rev)
  obtain zs where zs: "?t = strip s @ zs" using rtrim_prefix[of ?t is_space] by (auto simp: strip_def)
  with False have "hd (strip s) = hd ?t" by (metis hd_append2)
  moreover have "?t \<noteq> []" using zs False by auto
  then have "\<not> is_space (hd ?t)" by (rule hd_dropWhile)
  ultimately show ?thesis using l last by (simp add: trimmed_def)
qed

lemma strip_trimmed: "trimmed s \<Longrightarrow> strip s = s"
proof (cases "s = []")
  case True then show ?thesis by (simp add: strip_def)
next
  case False
  assume "trimmed s"
  with False have h: "\<not> is_space (hd s)" and l: "\<not> is_space (last s)" by (auto simp: trimmed_def)
  from h False have 1: "dropWhile is_space s = s" by (cases s) auto
  from l False have "\<not> is_space (hd (rev s))" by (simp add: hd_rev)
  with False have 2: "dropWhile is_space (rev s) = rev s" by (cases "rev s") auto
  show ?thesis by (simp add: strip_def 1 2)
qed

lemma trimmed_iff: "trimmed s \<longleftrightarrow> strip s = s"
  by (metis strip_trimmed trimmed_strip)

lemma strip_strip [simp]: "strip (strip s) = strip s"
  by (simp add: strip_trimmed)

lemma trimmed_lower: "trimmed s \<Longrightarrow> trimmed (lower s)"
  by (auto simp: trimmed_def lower_def hd_map last_map)

lemma strip_lower_strip [simp]: "strip (lower (strip s)) = lower (strip s)"
  by (simp add: strip_trimmed trimmed_lower)

section \<open>The store: properties\<close>

lemma tmp_path_neq [simp]: "tmp_path p \<noteq> p" "p \<noteq> tmp_path p"
  by (simp_all add: tmp_path_def)

lemma write_json_at [simp]: "write_json p d fs p = Some (Doc d)"
  by (simp add: write_json_def os_replace_def json_dump_def open_w_def)

lemma write_json_tmp [simp]: "write_json p d fs (tmp_path p) = None"
  by (simp add: write_json_def os_replace_def)

lemma write_json_other:
  "q \<noteq> p \<Longrightarrow> q \<noteq> tmp_path p \<Longrightarrow> write_json p d fs q = fs q"
  by (simp add: write_json_def os_replace_def json_dump_def open_w_def)

lemma write_json_same:
  "fs p = Some (Doc d) \<Longrightarrow> fs (tmp_path p) = None \<Longrightarrow> write_json p d fs = fs"
  by (rule ext) (simp add: write_json_def os_replace_def json_dump_def open_w_def)

lemma write_json_twice [simp]: "write_json p d (write_json p d fs) = write_json p d fs"
  by (rule write_json_same) simp_all

lemma dirname_tmp_path: "dirname (tmp_path p) = dirname p"
  by (simp add: dirname_def tmp_path_def dropWhile_append)

lemma write_json_interrupted_at: "write_json_interrupted i p d fs p = fs p"
  by (cases i) (simp_all add: json_dump_def open_w_def)

text \<open>
  C2.  \<open>write_json\<close> dumps the whole document into a temporary file of the same
  directory and then renames that file onto the target, in one \<open>os.replace\<close>.  When the
  call is interrupted at any point before the renaming, the target file is as it was, and
  reading a target that held the document \<open>old\<close> returns \<open>old\<close> and changes nothing.
\<close>

theorem write_json_atomic:
  "dirname (tmp_path path) = dirname path
   \<and> write_json path d fs =
       os_replace (tmp_path path) path (json_dump (tmp_path path) d (open_w (tmp_path path) fs))
   \<and> json_dump (tmp_path path) d (open_w (tmp_path path) fs) (tmp_path path) = Some (Doc d)
   \<and> json_dump (tmp_path path) d (open_w (tmp_path path) fs) path = fs path
   \<and> write_json path d fs path = Some (Doc d)
   \<and> write_json_interrupted i path d fs path = fs path
   \<and> read_json path dflt (write_json_interrupted i path d (fs(path \<mapsto> Doc old)))
       = (old, write_json_interrupted i path d (fs(path \<mapsto> Doc old)))"
proof -
  have rd: "write_json_interrupted i path d (fs(path \<mapsto> Doc old)) path = Some (Doc old)"
    by (simp add: write_json_interrupted_at)
  have c1: "dirname (tmp_path path) = dirname path"
    by (rule dirname_tmp_path)
  have c2: "write_json path d fs =
       os_replace (tmp_path path) path (json_dump (tmp_path path) d (open_w (tmp_path path) fs))"
    by (simp add: write_json_def)
  have c3: "json_dump (tmp_path path) d (open_w (tmp_path path) fs) (tmp_path path) = Some (Doc d)"
    by (simp add: json_dump_def)
  have c4: "json_dump (tmp_path path) d (open_w (tmp_path path) fs) path = fs path"
    by (simp add: json_dump_def open_w_def)
  have c5: "write_json path d fs path = Some (Doc d)"
    by simp
  have c6: "write_json_interrupted i path d fs path = fs path"
    by (rule write_json_interrupted_at)
  have c7: "read_json path dflt (write_json_interrupted i path d (fs(path \<mapsto> Doc old)))
       = (old, write_json_interrupted i path d (fs(path \<mapsto> Doc old)))"
    using rd by (simp add: read_json_def)
  from c1 c2 c3 c4 c5 c6 c7 show ?thesis
    by blast
qed

section \<open>Dictionaries: properties\<close>

lemma map_of_dict_set [simp]: "map_of (dict_set d k v) = (map_of d)(k \<mapsto> v)"
  by (induction d k v rule: dict_set.induct) (auto simp: fun_upd_twist)

lemma keys_dict_set:
  "map fst (dict_set d k v) = (if k \<in> fst ` set d then map fst d else map fst d @ [k])"
  by (induction d k v rule: dict_set.induct) auto

lemma distinct_dict_set: "distinct (map fst d) \<Longrightarrow> distinct (map fst (dict_set d k v))"
  by (simp add: keys_dict_set)

lemma map_of_dict_update_rev: "map_of (dict_update d p) = map_of d ++ map_of (rev p)"
  unfolding dict_update_def
  by (induction p arbitrary: d) (auto simp: map_add_upd_left)

section \<open>The live snapshot: properties\<close>

lemma paths_neq [simp]:
  "LIVE_STATS_PATH \<noteq> QUEUES_PATH" "QUEUES_PATH \<noteq> LIVE_STATS_PATH"
  "LIVE_STATS_PATH \<noteq> tmp_path QUEUES_PATH" "QUEUES_PATH \<noteq> tmp_path LIVE_STATS_PATH"
  "tmp_path QUEUES_PATH \<noteq> LIVE_STATS_PATH" "tmp_path LIVE_STATS_PATH \<noteq> QUEUES_PATH"
  by (simp_all add: LIVE_STATS_PATH_def QUEUES_PATH_def tmp_path_def)

lemma get_live_stats_written [simp]:
  "get_live_stats (write_json LIVE_STATS_PATH (JObj d) fs) =
     (d, write_json LIVE_STATS_PATH (JObj d) fs)"
  by (simp add: get_live_stats_def read_json_def)

lemma update_live_stats_eq:
  "update_live_stats p fs =
     (dict_update (fst (get_live_stats fs)) p,
      write_json LIVE_STATS_PATH (JObj (dict_update (fst (get_live_stats fs)) p))
        (snd (get_live_stats fs)))"
  by (simp add: update_live_stats_def Let_def split: prod.splits)

lemma get_after_update:
  "fst (get_live_stats (snd (update_live_stats p fs))) = dict_update (fst (get_live_stats fs)) p"
  by (simp add: update_live_stats_eq)

lemma get_live_stats_absent:
  "fs LIVE_STATS_PATH = None \<Longrightarrow>
   get_live_stats fs = ([], write_json LIVE_STATS_PATH (JObj []) fs)"
  by (simp add: get_live_stats_def read_json_def)

lemma seed_file_other: "q \<noteq> p \<Longrightarrow> q \<noteq> tmp_path p \<Longrightarrow> seed_file p d fs q = fs q"
  by (auto simp: seed_file_def read_json_def write_json_other Let_def
      split: option.splits content.splits)

lemma seed_file_absent: "fs p = None \<Longrightarrow> seed_file p d fs = write_json p d fs"
  by (simp add: seed_file_def)

lemma init_seed_files_absent:
  "fs LIVE_STATS_PATH = None \<Longrightarrow>
   init_seed_files u fs =
     write_json LIVE_STATS_PATH (JObj (default_stats u)) (seed_file QUEUES_PATH (JObj []) fs)"
  by (simp add: init_seed_files_def seed_file_absent seed_file_other)

text \<open>
  C1, as the specification states it, fails: \<open>update_live_stats\<close> reads no clock.  On the
  snapshot that \<open>init_seed_files\<close> has just seeded, where \<open>updated_at\<close> is null, merging
  \<open>{viewers: 42}\<close> leaves \<open>updated_at\<close> null.
\<close>

theorem merge_without_updated_at_keeps_null:
  "dict_get (fst (get_live_stats (init_seed_files '''' Map.empty))) ''updated_at'' = Some JNull
   \<and> dict_get (fst (get_live_stats (snd (update_live_stats [(''viewers'', JInt 42)]
        (init_seed_files '''' Map.empty))))) ''updated_at'' = Some JNull"
  by (simp add: get_after_update init_seed_files_absent dict_get_def map_of_dict_update_rev
      default_stats_def)

text \<open>
  C1, amended.  A merge whose partial update does not name \<open>updated_at\<close> leaves the
  stored \<open>updated_at\<close> as it was; a merge whose partial update names it stores the value
  the caller gave.  The timestamp is the caller's to supply.
\<close>

theorem update_live_stats_updated_at:
  "(''updated_at'' \<notin> fst ` set partial \<longrightarrow>
      dict_get (fst (get_live_stats (snd (update_live_stats partial fs)))) ''updated_at''
      = dict_get (fst (get_live_stats fs)) ''updated_at'')
   \<and> (distinct (map fst partial) \<and> (''updated_at'', t) \<in> set partial \<longrightarrow>
      dict_get (fst (get_live_stats (snd (update_live_stats partial fs)))) ''updated_at'' = Some t)"
proof -
  have a: "map_of (rev partial) ''updated_at'' = None" if "''updated_at'' \<notin> fst ` set partial"
    using that by (simp add: map_of_eq_None_iff)
  have b: "map_of (rev partial) ''updated_at'' = Some t"
    if "distinct (map fst partial)" "(''updated_at'', t) \<in> set partial"
    using that by (intro map_of_is_SomeI) (simp_all add: rev_map [symmetric])
  show ?thesis
    using a b by (simp add: get_after_update dict_get_def map_of_dict_update_rev map_add_def)
qed

theorem update_live_stats_updated_at_witness:
  "''updated_at'' \<notin> fst ` set [(''viewers'', JInt 42)]
   \<and> dict_get (fst (get_live_stats (snd (update_live_stats [(''viewers'', JInt 42)]
         (init_seed_files '''' Map.empty))))) ''updated_at''
       = dict_get (fst (get_live_stats (init_seed_files '''' Map.empty))) ''updated_at''
   \<and> distinct (map fst [(''viewers'', JInt 42), (''updated_at'', JStr ''2024-05-01T10:00:00+00:00'')])
   \<and> (''updated_at'', JStr ''2024-05-01T10:00:00+00:00'')
        \<in> set [(''viewers'', JInt 42), (''updated_at'', JStr ''2024-05-01T10:00:00+00:00'')]
   \<and> dict_get (fst (get_live_stats (snd (update_live_stats
         [(''viewers'', JInt 42), (''updated_at'', JStr ''2024-05-01T10:00:00+00:00'')]
         (init_seed_files '''' Map.empty))))) ''updated_at''
       = Some (JStr ''2024-05-01T10:00:00+00:00'')"
  using update_live_stats_updated_at
      [of "[(''viewers'', JInt 42)]" "init_seed_files '''' Map.empty"]
    update_live_stats_updated_at
      [of "[(''viewers'', JInt 42), (''updated_at'', JStr ''2024-05-01T10:00:00+00:00'')]"
          "init_seed_files '''' Map.empty" "JStr ''2024-05-01T10:00:00+00:00''"]
  by simp

text \<open>
  C5, as the specification states it, fails: with no snapshot file, \<open>get_live_stats\<close>
  returns the empty document, in which \<open>connected\<close> has no value, and writes the empty
  document to the file.
\<close>

theorem get_live_stats_absent_is_empty:
  "fst (get_live_stats Map.empty) = []
   \<and> dict_get (fst (get_live_stats Map.empty)) ''connected'' = None
   \<and> snd (get_live_stats Map.empty) LIVE_STATS_PATH = Some (Doc (JObj []))"
  by (simp add: get_live_stats_absent dict_get_def)

text \<open>
  C5, amended.  With no snapshot file, reading the snapshot returns the empty document
  and writes it to the file.  The documented defaults are those of \<open>init_seed_files\<close>,
  which runs when the module is loaded: with no snapshot file it writes them, with the
  configured channel name as \<open>tiktok_username\<close>, and a read after it returns them.
\<close>

theorem live_stats_seeding:
  "fs LIVE_STATS_PATH = None \<Longrightarrow>
     get_live_stats fs = ([], write_json LIVE_STATS_PATH (JObj []) fs)
   \<and> init_seed_files username fs LIVE_STATS_PATH = Some (Doc (JObj (default_stats username)))
   \<and> get_live_stats (init_seed_files username fs)
       = (default_stats username, init_seed_files username fs)
   \<and> default_stats username =
       [(''connected'', JBool False), (''viewers'', JInt 0), (''likes'', JInt 0),
        (''last_comment'', JNull), (''last_gift'', JNull), (''updated_at'', JNull),
        (''tiktok_username'', JStr username)]"
  by (simp add: get_live_stats_absent init_seed_files_absent) (simp add: default_stats_def)

theorem live_stats_seeding_witness:
  "(Map.empty :: files) LIVE_STATS_PATH = None
   \<and> get_live_stats Map.empty = ([], write_json LIVE_STATS_PATH (JObj []) Map.empty)
   \<and> get_live_stats (init_seed_files ''streamer'' Map.empty)
       = (default_stats ''streamer'', init_seed_files ''streamer'' Map.empty)"
  using live_stats_seeding [of Map.empty "''streamer''"] by simp

text \<open>
  C6, as the specification states it, fails in its last part: on a snapshot that holds a
  comment and the timestamp of that comment, merging \<open>{viewers: 42}\<close> and reading back
  gives the same timestamp; \<open>updated_at\<close> has not advanced.
\<close>

theorem merge_viewers_keeps_old_timestamp:
  "dict_get (fst (get_live_stats (snd (update_live_stats [(''viewers'', JInt 42)]
      (write_json LIVE_STATS_PATH
         (JObj [(''connected'', JBool True),
                (''last_comment'', JObj [(''user'', JStr ''ann''), (''comment'', JStr ''hi'')]),
                (''updated_at'', JStr ''2024-05-01T10:00:00+00:00'')])
         Map.empty))))) ''updated_at''
   = Some (JStr ''2024-05-01T10:00:00+00:00'')"
  by (simp add: get_after_update dict_get_def map_of_dict_update_rev)

text \<open>
  C6, amended.  The merge is sparse: the document read back after a merge is the
  document the merge returns, and each of its fields has the value the partial update
  gives it, or, when the partial update does not name it, the value it had before.  In
  particular, after merging \<open>{viewers: 42}\<close> a read gives \<open>last_comment\<close> as it was and
  \<open>viewers\<close> as 42, and \<open>updated_at\<close> as it was.
\<close>

theorem update_live_stats_sparse:
  "fst (get_live_stats (snd (update_live_stats partial fs))) = fst (update_live_stats partial fs)
   \<and> dict_get (fst (update_live_stats partial fs)) k =
       (case dict_get (dict_update [] partial) k of
          None \<Rightarrow> dict_get (fst (get_live_stats fs)) k
        | Some v \<Rightarrow> Some v)
   \<and> dict_get (fst (get_live_stats (snd (update_live_stats [(''viewers'', JInt 42)] fs))))
         ''last_comment''
       = dict_get (fst (get_live_stats fs)) ''last_comment''
   \<and> dict_get (fst (get_live_stats (snd (update_live_stats [(''viewers'', JInt 42)] fs))))
         ''viewers''
       = Some (JInt 42)
   \<and> dict_get (fst (get_live_stats (snd (update_live_stats [(''viewers'', JInt 42)] fs))))
         ''updated_at''
       = dict_get (fst (get_live_stats fs)) ''updated_at''"
  by (simp add: get_after_update update_live_stats_eq dict_get_def map_of_dict_update_rev
      map_add_def cong: option.case_cong)

section \<open>The waitlists: properties\<close>

lemma get_queues_eq:
  "get_queues r fs =
     (case fs QUEUES_PATH of
        None \<Rightarrow> ([], write_json QUEUES_PATH (JObj []) fs)
      | Some Unparsable \<Rightarrow> ([], fs)
      | Some (Doc (JObj items)) \<Rightarrow> (load_table r items, fs)
      | Some (Doc _) \<Rightarrow> ([], fs))"
  by (simp add: get_queues_def read_json_def load_table_def split: option.splits content.splits json.splits)

lemma save_queues_eq:
  "save_queues q fs = write_json QUEUES_PATH (queues_doc (store_table q)) fs"
  by (simp add: save_queues_def store_table_def)

lemma keys_set_dict_set [simp]: "fst ` set (dict_set d k v) = insert k (fst ` set d)"
  by (induction d k v rule: dict_set.induct) auto

lemma keys_fold_strip:
  "fst ` set (foldl (\<lambda>d u. dict_set d (f u) ()) d us) = fst ` set d \<union> f ` set us"
  by (induction us arbitrary: d) simp_all

lemma distinct_fold_strip:
  "distinct (map fst d) \<Longrightarrow> distinct (map fst (foldl (\<lambda>d u. dict_set d (f u) ()) d us))"
  by (induction us arbitrary: d) (auto simp: distinct_dict_set)

lemma set_normalize_users [simp]: "set (normalize_users us) = strip ` set us"
  using keys_fold_strip [of strip "[]" us] by (simp add: normalize_users_def dict_keys_def)

lemma distinct_normalize_users [simp]: "distinct (normalize_users us)"
  using distinct_fold_strip [of "[]" strip us] by (simp add: normalize_users_def dict_keys_def)

lemma sorted_normalize_users [simp]: "sorted (normalize_users us)"
  by (simp add: normalize_users_def)

lemma normal_list_normalize_users [simp]: "normal_list (normalize_users us)"
  by (auto simp: normal_list_def list_all_iff)

lemma normalize_users_normal: "normal_list us \<Longrightarrow> normalize_users us = us"
proof -
  assume n: "normal_list us"
  then have "strip ` set us = set us"
    by (force simp: normal_list_def list_all_iff strip_trimmed)
  with n show ?thesis
    by (intro sorted_distinct_set_unique) (simp_all add: normal_list_def)
qed

lemma normal_list_Nil [simp]: "normal_list []"
  by (simp add: normal_list_def)

lemma foldl_dict_set_append:
  "distinct (map fst (a @ q)) \<Longrightarrow> foldl (\<lambda>n (g, us). dict_set n g us) a q = a @ q"
proof (induction q arbitrary: a)
  case Nil then show ?case by simp
next
  case (Cons x q)
  obtain g us where x: "x = (g, us)" by (cases x)
  have ds: "dict_set a g us = a @ [(g, us)]" if "g \<notin> fst ` set a" for a :: "('a \<times> 'b) list"
    using that by (induction a) auto
  from Cons.prems x have "g \<notin> fst ` set a" by auto
  with Cons x show ?case by (simp add: ds)
qed

lemma normal_table_dict_set:
  "normal_table q \<Longrightarrow> normal_list us \<Longrightarrow> normal_table (dict_set q g us)"
  by (induction q g us rule: dict_set.induct)
     (auto simp: normal_table_def keys_dict_set split: if_splits)

lemma keys_trimmed_dict_set:
  "list_all trimmed (map fst q) \<Longrightarrow> trimmed g \<Longrightarrow> list_all trimmed (map fst (dict_set q g v))"
  by (induction q g v rule: dict_set.induct) auto

lemma normal_table_foldl:
  assumes "\<And>x. normal_list (val x)" and "normal_table a"
  shows "normal_table (foldl (\<lambda>n x. dict_set n (key x) (val x)) a xs)"
  using assms(2) by (induction xs arbitrary: a) (simp_all add: normal_table_dict_set assms(1))

lemma keys_trimmed_foldl:
  assumes "\<And>x. trimmed (key x)" and "list_all trimmed (map fst a)"
  shows "list_all trimmed (map fst (foldl (\<lambda>n x. dict_set n (key x) (val x)) a xs))"
  using assms(2) by (induction xs arbitrary: a) (simp_all add: keys_trimmed_dict_set assms(1))

lemma normal_table_Nil [simp]: "normal_table []"
  by (simp add: normal_table_def)

lemma normal_table_load [simp]: "normal_table (load_table r items)"
  unfolding load_table_def case_prod_unfold
  by (rule normal_table_foldl) (simp_all split: json.splits)

lemma keys_load_aux:
  "fst ` set (foldl (\<lambda>normalized (game, users). dict_set normalized game (f users)) a items)
   = fst ` set a \<union> fst ` set items"
  by (induction items arbitrary: a) (simp_all add: case_prod_unfold)

lemma keys_load: "fst ` set (load_table r items) = fst ` set items"
  unfolding load_table_def using keys_load_aux [of _ "[]" items] by simp

lemma normal_table_store [simp]: "normal_table (store_table q)"
  unfolding store_table_def case_prod_unfold
  by (rule normal_table_foldl) simp_all

lemma keys_trimmed_store [simp]: "list_all trimmed (map fst (store_table q))"
  unfolding store_table_def case_prod_unfold
  by (rule keys_trimmed_foldl) simp_all

lemma store_table_normal:
  assumes "normal_table q" "list_all trimmed (map fst q)"
  shows "store_table q = q"
proof -
  have "foldl (\<lambda>normalized (game, users).
              dict_set normalized (strip game) (normalize_users users)) a q
        = foldl (\<lambda>n (g, us). dict_set n g us) a q" for a
  proof (intro foldl_cong refl)
    fix n x assume "x \<in> set q"
    with assms have "strip (fst x) = fst x" "normalize_users (snd x) = snd x"
      by (auto simp: normal_table_def list_all_iff normalize_users_normal strip_trimmed)
    then show "(case x of (game, users) \<Rightarrow> dict_set n (strip game) (normalize_users users))
             = (case x of (g, us) \<Rightarrow> dict_set n g us)"
      by (simp add: case_prod_unfold)
  qed
  then show ?thesis
    using assms foldl_dict_set_append [of "[]" q] by (simp add: store_table_def normal_table_def)
qed

lemma load_table_doc:
  assumes "normal_table q"
  shows "load_table r (map (\<lambda>(game, users). (game, JArr (map JStr users))) q) = q"
proof -
  have m: "map (py_str r \<circ> JStr) us = us" for us
    by (induction us) (simp_all add: py_str_def)
  have "foldl (\<lambda>normalized (game, users).
              dict_set normalized game
                (case users of
                   JArr us \<Rightarrow> normalize_users (map (py_str r) us)
                 | _ \<Rightarrow> [])) a (map (\<lambda>(game, users). (game, JArr (map JStr users))) q)
        = foldl (\<lambda>n (g, us). dict_set n g us) a q" for a
    unfolding foldl_map
  proof (intro foldl_cong refl)
    fix n x assume "x \<in> set q"
    with assms have "normalize_users (snd x) = snd x"
      by (auto simp: normal_table_def list_all_iff normalize_users_normal)
    then show "(case case x of (game, users) \<Rightarrow> (game, JArr (map JStr users)) of
                 (game, users) \<Rightarrow> dict_set n game
                    (case users of JArr us \<Rightarrow> normalize_users (map (py_str r) us) | _ \<Rightarrow> []))
             = (case x of (g, us) \<Rightarrow> dict_set n g us)"
      by (simp add: case_prod_unfold m)
  qed
  then show ?thesis
    using assms foldl_dict_set_append [of "[]" q] by (simp add: load_table_def normal_table_def)
qed

lemma get_queues_written:
  "normal_table q \<Longrightarrow>
   get_queues r (write_json QUEUES_PATH (queues_doc q) fs) = (q, write_json QUEUES_PATH (queues_doc q) fs)"
  by (simp add: get_queues_eq queues_doc_def load_table_doc)

lemma get_queues_saved:
  "get_queues r (save_queues q fs) = (store_table q, save_queues q fs)"
  by (simp add: save_queues_eq get_queues_written)

lemma get_queues_normal [simp]: "normal_table (fst (get_queues r fs))"
  by (simp add: get_queues_eq split: option.splits content.splits json.splits)

lemma get_queues_keys_trimmed:
  "trimmed_keys fs \<Longrightarrow> list_all trimmed (map fst (fst (get_queues r fs)))"
proof -
  assume t: "trimmed_keys fs"
  have "list_all trimmed (map fst (load_table r items))"
    if "list_all trimmed (map fst items)" for items
  proof -
    have "\<forall>g \<in> fst ` set (load_table r items). trimmed g"
      using that unfolding keys_load by (auto simp: list_all_iff)
    then show ?thesis by (force simp: list_all_iff)
  qed
  with t show ?thesis
    by (auto simp: get_queues_eq trimmed_keys_def split: option.splits content.splits json.splits)
qed

lemma get_queues_idem:
  "get_queues r (snd (get_queues r fs)) = (fst (get_queues r fs), snd (get_queues r fs))"
  by (simp add: get_queues_eq load_table_def split: option.splits content.splits json.splits)

lemma get_queues_present: "fs QUEUES_PATH \<noteq> None \<Longrightarrow> snd (get_queues r fs) = fs"
  by (auto simp: get_queues_eq split: option.splits content.splits json.splits)

lemma dict_set_twice [simp]: "dict_set (dict_set q k v) k v' = dict_set q k v'"
  by (induction q k v rule: dict_set.induct) auto

lemma dict_get_or_dict_set [simp]: "dict_get_or (dict_set q k v) k d = v"
  by (simp add: dict_get_or_def)

lemma dict_get_dict_set [simp]: "dict_get (dict_set q k v) k = Some v"
  by (simp add: dict_get_def)

lemma normal_list_lookup: "normal_table q \<Longrightarrow> normal_list (dict_get_or q k [])"
proof (cases "map_of q k")
  case None then show ?thesis by (simp add: dict_get_or_def)
next
  case (Some us)
  assume "normal_table q"
  moreover from Some have "(k, us) \<in> set q" by (rule map_of_SomeD)
  ultimately have "normal_list us" by (auto simp: normal_table_def list_all_iff)
  with Some show ?thesis by (simp add: dict_get_or_def)
qed

lemma set_py_sorted [simp]: "finite s \<Longrightarrow> set (py_sorted s) = s"
  by (simp add: py_sorted_def)

lemma sorted_py_sorted [simp]: "sorted (py_sorted s)"
  unfolding py_sorted_def by (rule sorted_list_of_set.sorted_sorted_key_list_of_set)

lemma distinct_py_sorted [simp]: "distinct (py_sorted s)"
  unfolding py_sorted_def by (rule sorted_list_of_set.distinct_sorted_key_list_of_set)

lemma py_sorted_normal: "normal_list us \<Longrightarrow> py_sorted (set us) = us"
  by (intro sorted_distinct_set_unique) (simp_all add: normal_list_def)

lemma normal_list_insert:
  "normal_list us \<Longrightarrow> trimmed u \<Longrightarrow> normal_list (py_sorted (insert u (set us)))"
  by (simp add: normal_list_def list_all_iff)

lemma normal_list_filter: "normal_list us \<Longrightarrow> normal_list (filter P us)"
  by (simp add: normal_list_def list_all_iff sorted_wrt_filter)

lemma trimmed_game_key [simp]: "trimmed (lower (strip g))"
  by (simp add: trimmed_lower)

lemma save_normal:
  "normal_table q \<Longrightarrow> list_all trimmed (map fst q) \<Longrightarrow>
   save_queues q fs = write_json QUEUES_PATH (queues_doc q) fs"
  by (simp add: save_queues_eq store_table_normal)

lemma add_to_queue_eq:
  assumes "trimmed_keys fs"
  shows "add_to_queue r g u fs =
     write_json QUEUES_PATH
       (queues_doc (dict_set (fst (get_queues r fs)) (lower (strip g))
          (py_sorted (insert (strip u)
             (set (dict_get_or (fst (get_queues r fs)) (lower (strip g)) []))))))
       (snd (get_queues r fs))"
proof -
  let ?q = "fst (get_queues r fs)"
  let ?l = "py_sorted (insert (strip u) (set (dict_get_or ?q (lower (strip g)) [])))"
  have "normal_list ?l"
    by (intro normal_list_insert normal_list_lookup) simp_all
  then have n: "normal_table (dict_set ?q (lower (strip g)) ?l)"
    by (intro normal_table_dict_set) simp_all
  have k: "list_all trimmed (map fst (dict_set ?q (lower (strip g)) ?l))"
    using assms by (intro keys_trimmed_dict_set get_queues_keys_trimmed) simp_all
  show ?thesis
    using save_normal [OF n k] by (simp add: add_to_queue_def Let_def case_prod_unfold)
qed

lemma get_queues_after_add:
  assumes "trimmed_keys fs"
  shows "fst (get_queues r (add_to_queue r g u fs)) =
     dict_set (fst (get_queues r fs)) (lower (strip g))
          (py_sorted (insert (strip u)
             (set (dict_get_or (fst (get_queues r fs)) (lower (strip g)) []))))"
    and "snd (get_queues r (add_to_queue r g u fs)) = add_to_queue r g u fs"
proof -
  let ?q = "fst (get_queues r fs)"
  let ?l = "py_sorted (insert (strip u) (set (dict_get_or ?q (lower (strip g)) [])))"
  have "normal_list ?l"
    by (intro normal_list_insert normal_list_lookup) simp_all
  then have n: "normal_table (dict_set ?q (lower (strip g)) ?l)"
    by (intro normal_table_dict_set) simp_all
  show "fst (get_queues r (add_to_queue r g u fs)) = dict_set ?q (lower (strip g)) ?l"
    and "snd (get_queues r (add_to_queue r g u fs)) = add_to_queue r g u fs"
    using get_queues_written [OF n] by (simp_all add: add_to_queue_eq [OF assms])
qed

lemma trimmed_keys_written:
  "list_all trimmed (map fst q) \<Longrightarrow> trimmed_keys (write_json QUEUES_PATH (queues_doc q) fs)"
  by (simp add: trimmed_keys_def queues_doc_def list_all_iff case_prod_unfold)

lemma trimmed_keys_save [simp]: "trimmed_keys (save_queues q fs)"
  by (simp add: save_queues_eq trimmed_keys_written)

lemma trimmed_keys_add [simp]: "trimmed_keys (add_to_queue r g u fs)"
  by (simp add: add_to_queue_def Let_def case_prod_unfold)

text \<open>
  C8, as the specification states it for every starting table, fails on a stored table
  with two keys that are the same once trimmed: \<open>get_queues\<close> keeps the keys as they
  are stored and \<open>save_queues\<close> trims them, so the later key overwrites the earlier one
  as the table is written.  From \<open>{"a": ["y"], " a": ["x"]}\<close>, adding \<open>z\<close> to \<open>a\<close> once
  leaves \<open>{"a": ["x"]}\<close>, and adding it a second time leaves \<open>{"a": ["x", "z"]}\<close>.
\<close>

theorem add_twice_differs_on_colliding_keys:
  "fst (get_queues (\<lambda>_. []) (add_to_queue (\<lambda>_. []) ''a'' ''z''
       (write_json QUEUES_PATH
          (JObj [(''a'', JArr [JStr ''y'']), ('' a'', JArr [JStr ''x''])]) Map.empty)))
     = [(''a'', [''x''])]
   \<and> fst (get_queues (\<lambda>_. []) (add_to_queue (\<lambda>_. []) ''a'' ''z''
       (add_to_queue (\<lambda>_. []) ''a'' ''z''
       (write_json QUEUES_PATH
          (JObj [(''a'', JArr [JStr ''y'']), ('' a'', JArr [JStr ''x''])]) Map.empty))))
     = [(''a'', [''x'', ''z''])]"
  by code_simp

text \<open>
  C8, amended.  Adding is idempotent on every stored table with trimmed keys (every
  table the store has written, and also no file, an unreadable file or a file that
  holds no object): adding an entrant to a category twice leaves the same files as
  adding it once.
\<close>

theorem add_to_queue_idempotent:
  assumes "trimmed_keys fs"
  shows "add_to_queue r g u (add_to_queue r g u fs) = add_to_queue r g u fs"
proof -
  let ?q = "fst (get_queues r fs)"
  let ?l = "py_sorted (insert (strip u) (set (dict_get_or ?q (lower (strip g)) [])))"
  let ?fs1 = "add_to_queue r g u fs"
  have nl: "normal_list ?l"
    by (intro normal_list_insert normal_list_lookup) simp_all
  have "insert (strip u) (set ?l) = set ?l" by auto
  then have l: "py_sorted (insert (strip u) (set ?l)) = ?l"
    using py_sorted_normal [OF nl] by simp
  have "add_to_queue r g u ?fs1 =
      write_json QUEUES_PATH (queues_doc (dict_set ?q (lower (strip g)) ?l)) ?fs1"
    by (subst add_to_queue_eq) (simp_all add: get_queues_after_add [OF assms] l)
  also have "\<dots> = ?fs1"
    by (simp add: add_to_queue_eq [OF assms])
  finally show ?thesis .
qed

lemma remove_false:
  assumes "dict_get (fst (get_queues r fs)) (lower (strip g)) = None
           \<or> strip u \<notin> set (dict_get_or (fst (get_queues r fs)) (lower (strip g)) [])"
  shows "remove_from_queue r g u fs = (False, snd (get_queues r fs))"
  using assms
  by (auto simp: remove_from_queue_def Let_def dict_get_def dict_get_or_def case_prod_unfold
      split: option.splits)

lemma remove_true:
  assumes "trimmed_keys fs"
    and "dict_get (fst (get_queues r fs)) (lower (strip g)) = Some us"
    and "strip u \<in> set us"
  shows "remove_from_queue r g u fs =
     (True, write_json QUEUES_PATH
        (queues_doc (dict_set (fst (get_queues r fs)) (lower (strip g))
           (filter (\<lambda>x. x \<noteq> strip u) us)))
        (snd (get_queues r fs)))"
    and "normal_table (dict_set (fst (get_queues r fs)) (lower (strip g))
           (filter (\<lambda>x. x \<noteq> strip u) us))"
proof -
  let ?q = "fst (get_queues r fs)"
  have "dict_get_or ?q (lower (strip g)) [] = us"
    using assms(2) by (simp add: dict_get_def dict_get_or_def)
  then have "normal_list us"
    using normal_list_lookup [of ?q "lower (strip g)"] by simp
  then have "normal_list (filter (\<lambda>x. x \<noteq> strip u) us)" by (rule normal_list_filter)
  then show n: "normal_table (dict_set ?q (lower (strip g)) (filter (\<lambda>x. x \<noteq> strip u) us))"
    by (intro normal_table_dict_set) simp_all
  have k: "list_all trimmed (map fst (dict_set ?q (lower (strip g)) (filter (\<lambda>x. x \<noteq> strip u) us)))"
    using assms(1) by (intro keys_trimmed_dict_set get_queues_keys_trimmed) simp_all
  show "remove_from_queue r g u fs =
     (True, write_json QUEUES_PATH
        (queues_doc (dict_set ?q (lower (strip g)) (filter (\<lambda>x. x \<noteq> strip u) us)))
        (snd (get_queues r fs)))"
    using assms(2,3) save_normal [OF n k]
    by (simp add: remove_from_queue_def Let_def case_prod_unfold)
qed

text \<open>
  C7, as the specification states it for every stored table, fails in its second half
  on a table with two keys that are the same once trimmed.  From
  \<open>{"a": ["y"], " a": ["y"]}\<close>, removing \<open>y\<close> from \<open>a\<close> returns \<open>True\<close>, but the list
  of the key \<open>" a"\<close> is written over the emptied list of \<open>a\<close>, and \<open>y\<close> is still listed.
\<close>

theorem remove_true_entrant_still_listed:
  "fst (remove_from_queue (\<lambda>_. []) ''a'' ''y''
       (write_json QUEUES_PATH
          (JObj [(''a'', JArr [JStr ''y'']), ('' a'', JArr [JStr ''y''])]) Map.empty)) = True
   \<and> fst (cmd_queue (\<lambda>_. []) ''a'' (snd (remove_from_queue (\<lambda>_. []) ''a'' ''y''
       (write_json QUEUES_PATH
          (JObj [(''a'', JArr [JStr ''y'']), ('' a'', JArr [JStr ''y''])]) Map.empty))))
      = [''y'']"
  by code_simp

text \<open>
  C7, amended.  \<open>remove_from_queue\<close> returns \<open>False\<close> when the normalized category is
  not in the table or the trimmed entrant is not in its list, and then it has only read
  the table: the table is the same, and the files are untouched when the table file
  exists.  Otherwise, on a stored table with trimmed keys (every table the store has
  written), it returns \<open>True\<close>, and the file then holds the table with the entrant
  filtered out of that category's list, so that the entrant is no longer listed.
\<close>

theorem remove_from_queue_correct:
  "(dict_get (fst (get_queues r fs)) (lower (strip c)) = None
      \<or> strip e \<notin> set (dict_get_or (fst (get_queues r fs)) (lower (strip c)) [])
    \<longrightarrow> remove_from_queue r c e fs = (False, snd (get_queues r fs))
        \<and> fst (get_queues r (snd (remove_from_queue r c e fs))) = fst (get_queues r fs)
        \<and> (fs QUEUES_PATH \<noteq> None \<longrightarrow> snd (remove_from_queue r c e fs) = fs))
   \<and> (trimmed_keys fs
      \<and> dict_get (fst (get_queues r fs)) (lower (strip c)) = Some us
      \<and> strip e \<in> set us
    \<longrightarrow> fst (remove_from_queue r c e fs) = True
        \<and> fst (get_queues r (snd (remove_from_queue r c e fs)))
            = dict_set (fst (get_queues r fs)) (lower (strip c)) (filter (\<lambda>x. x \<noteq> strip e) us)
        \<and> snd (remove_from_queue r c e fs) QUEUES_PATH
            = Some (Doc (queues_doc (dict_set (fst (get_queues r fs)) (lower (strip c))
                 (filter (\<lambda>x. x \<noteq> strip e) us))))
        \<and> strip e \<notin> set (fst (cmd_queue r c (snd (remove_from_queue r c e fs)))))"
proof (intro conjI impI)
  assume a: "dict_get (fst (get_queues r fs)) (lower (strip c)) = None
      \<or> strip e \<notin> set (dict_get_or (fst (get_queues r fs)) (lower (strip c)) [])"
  show "remove_from_queue r c e fs = (False, snd (get_queues r fs))"
    by (rule remove_false [OF a])
  then show "fst (get_queues r (snd (remove_from_queue r c e fs))) = fst (get_queues r fs)"
    by (simp add: get_queues_idem)
  show "snd (remove_from_queue r c e fs) = fs" if "fs QUEUES_PATH \<noteq> None"
    using that by (simp add: remove_false [OF a] get_queues_present)
next
  assume a: "trimmed_keys fs
      \<and> dict_get (fst (get_queues r fs)) (lower (strip c)) = Some us
      \<and> strip e \<in> set us"
  then have t: "trimmed_keys fs" and d: "dict_get (fst (get_queues r fs)) (lower (strip c)) = Some us"
    and m: "strip e \<in> set us" by simp_all
  note rt = remove_true [OF t d m]
  show "fst (remove_from_queue r c e fs) = True" by (simp add: rt(1))
  show g: "fst (get_queues r (snd (remove_from_queue r c e fs)))
            = dict_set (fst (get_queues r fs)) (lower (strip c)) (filter (\<lambda>x. x \<noteq> strip e) us)"
    by (simp add: rt(1) get_queues_written [OF rt(2)])
  show "snd (remove_from_queue r c e fs) QUEUES_PATH
            = Some (Doc (queues_doc (dict_set (fst (get_queues r fs)) (lower (strip c))
                 (filter (\<lambda>x. x \<noteq> strip e) us))))"
    by (simp add: rt(1))
  show "strip e \<notin> set (fst (cmd_queue r c (snd (remove_from_queue r c e fs))))"
    by (simp add: cmd_queue_def Let_def g case_prod_unfold)
qed

lemma cmd_queue_list:
  "fst (cmd_queue r c fs) = dict_get_or (fst (get_queues r fs)) (lower (strip c)) []"
  by (simp add: cmd_queue_def Let_def case_prod_unfold)

text \<open>
  C10, as the specification states it, fails when the other spelling is itself listed:
  \<open>carol\<close> waits for \<open>valorant\<close>, \<open>Carol\<close> is added, and the removal of \<open>carol\<close> returns
  \<open>True\<close> and changes the table, which then lists \<open>Carol\<close> alone.
\<close>

theorem remove_other_case_succeeds_when_listed:
  "strip ''Carol'' \<noteq> strip ''carol''
   \<and> lower (strip ''Carol'') = lower (strip ''carol'')
   \<and> fst (cmd_queue (\<lambda>_. []) ''Valorant'' (add_to_queue (\<lambda>_. []) ''Valorant'' ''Carol''
       (write_json QUEUES_PATH
          (JObj [(''valorant'', JArr [JStr ''carol''])]) Map.empty))) = [''Carol'', ''carol'']
   \<and> fst (remove_from_queue (\<lambda>_. []) ''Valorant'' ''carol''
       (add_to_queue (\<lambda>_. []) ''Valorant'' ''Carol''
       (write_json QUEUES_PATH
          (JObj [(''valorant'', JArr [JStr ''carol''])]) Map.empty))) = True
   \<and> fst (cmd_queue (\<lambda>_. []) ''Valorant''
       (snd (remove_from_queue (\<lambda>_. []) ''Valorant'' ''carol''
       (add_to_queue (\<lambda>_. []) ''Valorant'' ''Carol''
       (write_json QUEUES_PATH
          (JObj [(''valorant'', JArr [JStr ''carol''])]) Map.empty))))) = [''Carol'']"
  by code_simp

text \<open>
  C10, amended.  Entrants are matched as they are once trimmed, with their case.  On a
  stored table with trimmed keys, let the trimmed names \<open>e\<close> and \<open>e'\<close> differ, as they
  do when they differ in the case of a letter.  If \<open>e'\<close> is not itself listed in the
  category, then after adding \<open>e\<close> the removal of \<open>e'\<close> returns \<open>False\<close> and leaves the
  files as the addition left them.  If \<open>e'\<close> is listed, the removal returns \<open>True\<close> and
  takes \<open>e'\<close> off the list, on which \<open>e\<close> stays.
\<close>

theorem remove_other_case_fails:
  assumes "trimmed_keys fs"
    and "strip e \<noteq> strip e'"
  shows "(strip e' \<notin> set (fst (cmd_queue r c fs)) \<longrightarrow>
            remove_from_queue r c e' (add_to_queue r c e fs) = (False, add_to_queue r c e fs))
       \<and> (strip e' \<in> set (fst (cmd_queue r c fs)) \<longrightarrow>
            fst (remove_from_queue r c e' (add_to_queue r c e fs)) = True
          \<and> set (fst (cmd_queue r c (snd (remove_from_queue r c e' (add_to_queue r c e fs)))))
              = insert (strip e) (set (fst (cmd_queue r c fs))) - {strip e'})"
proof (intro conjI impI)
  let ?q = "fst (get_queues r fs)"
  let ?k = "lower (strip c)"
  let ?l = "py_sorted (insert (strip e) (set (dict_get_or ?q ?k [])))"
  let ?fs1 = "add_to_queue r c e fs"
  note after = get_queues_after_add [OF assms(1), of r c e]
  {
    assume "strip e' \<notin> set (fst (cmd_queue r c fs))"
    then have "strip e' \<notin> set (dict_get_or ?q ?k [])"
      by (simp add: cmd_queue_list)
    with assms(2) have "strip e' \<notin> set (dict_get_or (fst (get_queues r ?fs1)) ?k [])"
      by (simp add: after)
    then show "remove_from_queue r c e' ?fs1 = (False, ?fs1)"
      by (simp add: remove_false after)
  }
  {
    assume "strip e' \<in> set (fst (cmd_queue r c fs))"
    then have m: "strip e' \<in> set ?l"
      by (simp add: cmd_queue_list)
    have t: "trimmed_keys ?fs1" by simp
    have d: "dict_get (fst (get_queues r ?fs1)) ?k = Some ?l"
      by (simp add: after)
    note rt = remove_true [OF t d m]
    show "fst (remove_from_queue r c e' ?fs1) = True"
      by (simp add: rt(1))
    have "fst (get_queues r (snd (remove_from_queue r c e' ?fs1)))
        = dict_set (fst (get_queues r ?fs1)) ?k (filter (\<lambda>x. x \<noteq> strip e') ?l)"
      by (simp add: rt(1) get_queues_written [OF rt(2)])
    then have "fst (cmd_queue r c (snd (remove_from_queue r c e' ?fs1)))
        = filter (\<lambda>x. x \<noteq> strip e') ?l"
      by (simp add: cmd_queue_list)
    then show "set (fst (cmd_queue r c (snd (remove_from_queue r c e' ?fs1))))
        = insert (strip e) (set (fst (cmd_queue r c fs))) - {strip e'}"
      by (auto simp: cmd_queue_list)
  }
qed

lemma canonical_save [simp]: "stored_canonical r (save_queues q fs)"
  using get_queues_saved [of r q fs]
  by (simp add: stored_canonical_def) (simp add: save_queues_eq)

lemma canonical_read: "stored_canonical r fs \<Longrightarrow> stored_canonical r (snd (get_queues r fs))"
proof (cases "fs QUEUES_PATH")
  case None
  then have "snd (get_queues r fs) = write_json QUEUES_PATH (JObj []) fs"
    by (simp add: get_queues_eq)
  then show ?thesis
    by (simp add: stored_canonical_def get_queues_eq load_table_def queues_doc_def)
next
  case (Some c)
  assume "stored_canonical r fs"
  with Some show ?thesis by (simp add: get_queues_present)
qed

lemma canonical_apply_op: "stored_canonical r fs \<Longrightarrow> stored_canonical r (apply_op r op fs)"
proof (cases op)
  case (Add g u)
  then show ?thesis by (simp add: add_to_queue_def Let_def case_prod_unfold)
next
  case (Remove g u)
  assume "stored_canonical r fs"
  with Remove show ?thesis
    by (simp add: remove_from_queue_def Let_def case_prod_unfold canonical_read
        split: option.splits)
next
  case (Clear g)
  then show ?thesis by (simp add: clear_queue_def Let_def case_prod_unfold)
next
  case Listing
  assume "stored_canonical r fs"
  with Listing show ?thesis by (simp add: canonical_read)
qed

lemma canonical_run_ops: "stored_canonical r fs \<Longrightarrow> stored_canonical r (run_ops r ops fs)"
  unfolding run_ops_def by (induction ops arbitrary: fs) (simp_all add: canonical_apply_op)

text \<open>
  C9.  After any sequence of additions, removals, clearings and listings, from any state
  of the files, every category of the table has a sorted list without repetition, under
  distinct keys; a category that is not in the table is shown as the empty list, and a
  removal from it returns \<open>False\<close>; and when the file held exactly the table before
  (or did not exist), it holds exactly the table afterwards.
\<close>

theorem waitlists_sorted_unique:
  "list_all (\<lambda>(game, users). sorted users \<and> distinct users)
      (fst (get_queues r (run_ops r ops fs)))
   \<and> distinct (map fst (fst (get_queues r (run_ops r ops fs))))
   \<and> (dict_get (fst (get_queues r (run_ops r ops fs))) (lower (strip g)) = None \<longrightarrow>
        fst (cmd_queue r g (run_ops r ops fs)) = []
        \<and> fst (remove_from_queue r g u (run_ops r ops fs)) = False)
   \<and> (stored_canonical r fs \<longrightarrow> stored_canonical r (run_ops r ops fs))"
proof -
  let ?fs = "run_ops r ops fs"
  have n: "normal_table (fst (get_queues r ?fs))" by simp
  then have 1: "list_all (\<lambda>(game, users). sorted users \<and> distinct users) (fst (get_queues r ?fs))"
    by (auto simp: normal_table_def normal_list_def list_all_iff)
  from n have 2: "distinct (map fst (fst (get_queues r ?fs)))"
    by (simp add: normal_table_def)
  have 3: "fst (cmd_queue r g ?fs) = [] \<and> fst (remove_from_queue r g u ?fs) = False"
    if "dict_get (fst (get_queues r ?fs)) (lower (strip g)) = None"
    using that by (simp add: remove_false cmd_queue_def Let_def case_prod_unfold
        dict_get_def dict_get_or_def)
  from 1 2 3 canonical_run_ops show ?thesis by blast
qed


text \<open>The witnesses run the theorems on a table where Alice and Bob wait for one game;
  entries that are not strings, of which there are none, would be shown as the empty
  string.\<close>

theorem add_to_queue_idempotent_witness:
  "trimmed_keys
     (write_json QUEUES_PATH (JObj [(''valorant'', JArr [JStr ''Alice'', JStr ''Bob''])]) Map.empty)
   \<and> add_to_queue (\<lambda>_. []) ''Valorant'' '' Carol ''
       (add_to_queue (\<lambda>_. []) ''Valorant'' '' Carol ''
          (write_json QUEUES_PATH (JObj [(''valorant'', JArr [JStr ''Alice'', JStr ''Bob''])])
             Map.empty))
     = add_to_queue (\<lambda>_. []) ''Valorant'' '' Carol ''
         (write_json QUEUES_PATH (JObj [(''valorant'', JArr [JStr ''Alice'', JStr ''Bob''])])
            Map.empty)"
proof -
  have h: "trimmed_keys
     (write_json QUEUES_PATH (JObj [(''valorant'', JArr [JStr ''Alice'', JStr ''Bob''])]) Map.empty)"
    by code_simp
  from h add_to_queue_idempotent [OF h] show ?thesis
    by blast
qed

theorem remove_from_queue_correct_witness:
  "(dict_get (fst (get_queues (\<lambda>_. [])
        (write_json QUEUES_PATH (JObj [(''valorant'', JArr [JStr ''Alice'', JStr ''Bob''])])
           Map.empty))) (lower (strip ''Valorant'')) = None
     \<or> strip ''alice'' \<notin> set (dict_get_or (fst (get_queues (\<lambda>_. [])
        (write_json QUEUES_PATH (JObj [(''valorant'', JArr [JStr ''Alice'', JStr ''Bob''])])
           Map.empty))) (lower (strip ''Valorant'')) []))
   \<and> fst (remove_from_queue (\<lambda>_. []) ''Valorant'' ''alice''
        (write_json QUEUES_PATH (JObj [(''valorant'', JArr [JStr ''Alice'', JStr ''Bob''])])
           Map.empty)) = False
   \<and> trimmed_keys
        (write_json QUEUES_PATH (JObj [(''valorant'', JArr [JStr ''Alice'', JStr ''Bob''])])
           Map.empty)
   \<and> dict_get (fst (get_queues (\<lambda>_. [])
        (write_json QUEUES_PATH (JObj [(''valorant'', JArr [JStr ''Alice'', JStr ''Bob''])])
           Map.empty))) (lower (strip '' valorant '')) = Some [''Alice'', ''Bob'']
   \<and> strip '' Bob '' \<in> set [''Alice'', ''Bob'']
   \<and> fst (remove_from_queue (\<lambda>_. []) '' valorant '' '' Bob ''
        (write_json QUEUES_PATH (JObj [(''valorant'', JArr [JStr ''Alice'', JStr ''Bob''])])
           Map.empty)) = True
   \<and> strip '' Bob '' \<notin> set (fst (cmd_queue (\<lambda>_. []) '' valorant ''
        (snd (remove_from_queue (\<lambda>_. []) '' valorant '' '' Bob ''
          (write_json QUEUES_PATH (JObj [(''valorant'', JArr [JStr ''Alice'', JStr ''Bob''])])
             Map.empty)))))"
proof -
  let ?fs = "write_json QUEUES_PATH (JObj [(''valorant'', JArr [JStr ''Alice'', JStr ''Bob''])])
           Map.empty"
  have a: "dict_get (fst (get_queues (\<lambda>_. []) ?fs)) (lower (strip ''Valorant'')) = None
     \<or> strip ''alice'' \<notin> set (dict_get_or (fst (get_queues (\<lambda>_. []) ?fs))
          (lower (strip ''Valorant'')) [])"
    by code_simp
  have b: "trimmed_keys ?fs"
    by code_simp
  have c: "dict_get (fst (get_queues (\<lambda>_. []) ?fs)) (lower (strip '' valorant ''))
      = Some [''Alice'', ''Bob'']"
    by code_simp
  have d: "strip '' Bob '' \<in> set [''Alice'', ''Bob'']"
    by code_simp
  from a remove_from_queue_correct [of "\<lambda>_. []" ?fs "''Valorant''" "''alice''"]
  have 1: "fst (remove_from_queue (\<lambda>_. []) ''Valorant'' ''alice'' ?fs) = False"
    by simp
  from b c d
    remove_from_queue_correct [of "\<lambda>_. []" ?fs "'' valorant ''" "'' Bob ''" "[''Alice'', ''Bob'']"]
  have 2: "fst (remove_from_queue (\<lambda>_. []) '' valorant '' '' Bob '' ?fs) = True
     \<and> strip '' Bob '' \<notin> set (fst (cmd_queue (\<lambda>_. []) '' valorant ''
          (snd (remove_from_queue (\<lambda>_. []) '' valorant '' '' Bob '' ?fs))))"
    by blast
  from a b c d 1 2 show ?thesis
    by blast
qed

theorem remove_other_case_fails_witness:
  "trimmed_keys
     (write_json QUEUES_PATH (JObj [(''valorant'', JArr [JStr ''Alice'', JStr ''Bob''])]) Map.empty)
   \<and> strip ''Carol'' \<noteq> strip '' carol''
   \<and> lower (strip ''Carol'') = lower (strip '' carol'')
   \<and> strip '' carol'' \<notin> set (fst (cmd_queue (\<lambda>_. []) ''Valorant''
        (write_json QUEUES_PATH (JObj [(''valorant'', JArr [JStr ''Alice'', JStr ''Bob''])])
           Map.empty)))
   \<and> remove_from_queue (\<lambda>_. []) ''Valorant'' '' carol''
       (add_to_queue (\<lambda>_. []) ''Valorant'' ''Carol''
          (write_json QUEUES_PATH (JObj [(''valorant'', JArr [JStr ''Alice'', JStr ''Bob''])])
             Map.empty))
     = (False,
        add_to_queue (\<lambda>_. []) ''Valorant'' ''Carol''
          (write_json QUEUES_PATH (JObj [(''valorant'', JArr [JStr ''Alice'', JStr ''Bob''])])
             Map.empty))
   \<and> strip ''alice'' \<noteq> strip ''Alice''
   \<and> strip ''Alice'' \<in> set (fst (cmd_queue (\<lambda>_. []) ''Valorant''
        (write_json QUEUES_PATH (JObj [(''valorant'', JArr [JStr ''Alice'', JStr ''Bob''])])
           Map.empty)))
   \<and> fst (remove_from_queue (\<lambda>_. []) ''Valorant'' ''Alice''
       (add_to_queue (\<lambda>_. []) ''Valorant'' ''alice''
          (write_json QUEUES_PATH (JObj [(''valorant'', JArr [JStr ''Alice'', JStr ''Bob''])])
             Map.empty))) = True"
proof -
  let ?fs = "write_json QUEUES_PATH (JObj [(''valorant'', JArr [JStr ''Alice'', JStr ''Bob''])])
           Map.empty"
  have a: "trimmed_keys ?fs"
    by code_simp
  have b: "strip ''Carol'' \<noteq> strip '' carol''"
    by code_simp
  have c: "lower (strip ''Carol'') = lower (strip '' carol'')"
    by code_simp
  have d: "strip '' carol'' \<notin> set (fst (cmd_queue (\<lambda>_. []) ''Valorant'' ?fs))"
    by code_simp
  have b': "strip ''alice'' \<noteq> strip ''Alice''"
    by code_simp
  have d': "strip ''Alice'' \<in> set (fst (cmd_queue (\<lambda>_. []) ''Valorant'' ?fs))"
    by code_simp
  from d remove_other_case_fails [OF a b, of "\<lambda>_. []" "''Valorant''"]
  have 1: "remove_from_queue (\<lambda>_. []) ''Valorant'' '' carol''
       (add_to_queue (\<lambda>_. []) ''Valorant'' ''Carol'' ?fs)
     = (False, add_to_queue (\<lambda>_. []) ''Valorant'' ''Carol'' ?fs)"
    by blast
  from d' remove_other_case_fails [OF a b', of "\<lambda>_. []" "''Valorant''"]
  have 2: "fst (remove_from_queue (\<lambda>_. []) ''Valorant'' ''Alice''
       (add_to_queue (\<lambda>_. []) ''Valorant'' ''alice'' ?fs)) = True"
    by blast
  from a b c d b' d' 1 2 show ?thesis
    by blast
qed

theorem waitlists_sorted_unique_witness:
  "stored_canonical (\<lambda>_. [])
     (write_json QUEUES_PATH (JObj [(''valorant'', JArr [JStr ''Alice'', JStr ''Bob''])]) Map.empty)
   \<and> stored_canonical (\<lambda>_. [])
       (run_ops (\<lambda>_. [])
          [Add ''Valorant'' '' Carol '', Remove ''valorant'' ''Alice'', Clear ''chess'', Listing]
          (write_json QUEUES_PATH (JObj [(''valorant'', JArr [JStr ''Alice'', JStr ''Bob''])])
             Map.empty))
   \<and> dict_get (fst (get_queues (\<lambda>_. [])
        (run_ops (\<lambda>_. [])
          [Add ''Valorant'' '' Carol '', Remove ''valorant'' ''Alice'', Clear ''chess'', Listing]
          (write_json QUEUES_PATH (JObj [(''valorant'', JArr [JStr ''Alice'', JStr ''Bob''])])
             Map.empty)))) (lower (strip ''Go'')) = None
   \<and> fst (cmd_queue (\<lambda>_. []) ''Go''
        (run_ops (\<lambda>_. [])
          [Add ''Valorant'' '' Carol '', Remove ''valorant'' ''Alice'', Clear ''chess'', Listing]
          (write_json QUEUES_PATH (JObj [(''valorant'', JArr [JStr ''Alice'', JStr ''Bob''])])
             Map.empty))) = []
   \<and> list_all (\<lambda>(game, users). sorted users \<and> distinct users)
        (fst (get_queues (\<lambda>_. [])
          (run_ops (\<lambda>_. [])
            [Add ''Valorant'' '' Carol '', Remove ''valorant'' ''Alice'', Clear ''chess'', Listing]
            (write_json QUEUES_PATH (JObj [(''valorant'', JArr [JStr ''Alice'', JStr ''Bob''])])
               Map.empty))))"
proof -
  let ?fs = "write_json QUEUES_PATH (JObj [(''valorant'', JArr [JStr ''Alice'', JStr ''Bob''])])
           Map.empty"
  let ?ops = "[Add ''Valorant'' '' Carol '', Remove ''valorant'' ''Alice'', Clear ''chess'', Listing]"
  have a: "stored_canonical (\<lambda>_. []) ?fs"
    by code_simp
  have b: "dict_get (fst (get_queues (\<lambda>_. []) (run_ops (\<lambda>_. []) ?ops ?fs)))
      (lower (strip ''Go'')) = None"
    by code_simp
  from a b waitlists_sorted_unique [of "\<lambda>_. []" ?ops ?fs "''Go''"] show ?thesis
    by blast
qed

section \<open>The listener: properties\<close>

lemma observe_disconnected:
  "map observe (fst (mark_disconnected e w)) = [Merge_connected False]"
  by (simp add: mark_disconnected_def merge_def Let_def)

lemma connected_after_mark [simp]:
  "connected_field (snd (mark_disconnected e w)) = Some (JBool False)"
  by (simp add: mark_disconnected_def merge_def Let_def connected_field_def get_after_update
      dict_get_def map_of_dict_update_rev)

lemma mark_disconnected_nonempty [simp]: "fst (mark_disconnected e w) \<noteq> []"
  by (simp add: mark_disconnected_def merge_def Let_def)

lemma last_mark_disconnected [simp]:
  "observe (last (fst (mark_disconnected e w))) = Merge_connected False"
  by (simp add: mark_disconnected_def merge_def Let_def)

lemma wait_for_sleep_equal [simp]: "wait_for_sleep d d False = Wait_timed_out"
  by (simp add: wait_for_sleep_def)

lemma turn_failed:
  "turn e \<lparr>stop_set = False, events = evs, ending = Fails False\<rparr> w =
     (Started # fst (handle_all e evs (None, w))
        @ fst (mark_disconnected e (snd (snd (handle_all e evs (None, w)))))
        @ [Waited 5 Wait_timed_out]
        @ fst (mark_disconnected e
                 (snd (mark_disconnected e (snd (snd (handle_all e evs (None, w))))))),
      after_failure e (snd (snd (handle_all e evs (None, w)))),
      Some Raised_timeout)"
  by (simp add: turn_def after_failure_def case_prod_unfold Let_def)

lemma run_configured:
  "tiktok_username e \<noteq> [] \<Longrightarrow> client_installed e \<Longrightarrow>
   run_tiktok_listener e ss w = reconnect_loop e ss w"
  by (simp add: run_tiktok_listener_def)

text \<open>
  C3.  The code does not do what the claim says.  When \<open>client.start()\<close> has raised,
  the \<open>except\<close> clause merges \<open>connected: false\<close> and waits in
  \<open>asyncio.wait_for(asyncio.sleep(5), timeout=5)\<close>, which raises \<open>TimeoutError\<close>; the
  clause catches \<open>CancelledError\<close> only, so the \<open>finally\<close> clause merges
  \<open>connected: false\<close> a second time and the error ends the listener.  Whatever the
  events of the session were and whatever would have come next, the first failure is
  the last thing the listener sees: there is no second connection attempt.  With three
  failures and a connection ahead, the listener makes one attempt, merges
  \<open>connected: false\<close> twice and never merges \<open>connected: true\<close>.
\<close>

theorem backoff_timeout_ends_listener:
  "reconnect_loop e (\<lparr>stop_set = False, events = evs, ending = Fails False\<rparr> # ss) w
     = (Started # fst (handle_all e evs (None, w))
          @ fst (mark_disconnected e (snd (snd (handle_all e evs (None, w)))))
          @ [Waited 5 Wait_timed_out]
          @ fst (mark_disconnected e
                   (snd (mark_disconnected e (snd (snd (handle_all e evs (None, w))))))),
        after_failure e (snd (snd (handle_all e evs (None, w)))),
        Raised_timeout)
   \<and> map observe (fst (run_tiktok_listener example_env
        [failed_session, failed_session, failed_session,
         \<lparr>stop_set = False, events = [Connect], ending = Closes\<rparr>] fresh_world))
      = [Connection_attempt, Merge_connected False, Wait 5 Wait_timed_out, Merge_connected False]
   \<and> snd (snd (run_tiktok_listener example_env
        [failed_session, failed_session, failed_session,
         \<lparr>stop_set = False, events = [Connect], ending = Closes\<rparr>] fresh_world))
      = Raised_timeout"
proof -
  have c: "tiktok_username example_env \<noteq> []" "client_installed example_env"
    by (simp_all add: example_env_def)
  have 1: "reconnect_loop e (\<lparr>stop_set = False, events = evs, ending = Fails False\<rparr> # ss) w
     = (Started # fst (handle_all e evs (None, w))
          @ fst (mark_disconnected e (snd (snd (handle_all e evs (None, w)))))
          @ [Waited 5 Wait_timed_out]
          @ fst (mark_disconnected e
                   (snd (mark_disconnected e (snd (snd (handle_all e evs (None, w))))))),
        after_failure e (snd (snd (handle_all e evs (None, w)))),
        Raised_timeout)" for e evs ss w
    by (simp add: turn_failed)
  have 2: "map observe (fst (run_tiktok_listener example_env (failed_session # ss) fresh_world))
      = [Connection_attempt, Merge_connected False, Wait 5 Wait_timed_out, Merge_connected False]"
    for ss
    by (simp add: run_configured [OF c] failed_session_def 1 observe_disconnected
        del: reconnect_loop.simps)
  have 3: "snd (snd (run_tiktok_listener example_env (failed_session # ss) fresh_world))
      = Raised_timeout" for ss
    by (simp add: run_configured [OF c] failed_session_def 1 del: reconnect_loop.simps)
  from 1 2 3 show ?thesis
    by blast
qed

text \<open>
  Once a session has been started, the \<open>finally\<close> clause has merged
  \<open>connected: false\<close> last, whatever the events were and however the loop ends: the
  last action is that merge and the stored snapshot says \<open>connected: false\<close>.
\<close>

lemma turn_stop: "stop_set s \<Longrightarrow> turn e s w = ([], w, Some Stopped_at_entry)"
  by (simp add: turn_def)

lemma turn_session:
  assumes "\<not> stop_set s" and "turn e s w = (acts, w', out)"
  shows "connected_field w' = Some (JBool False)"
    and "acts \<noteq> []"
    and "observe (last acts) = Merge_connected False"
  using assms
  by (auto simp: turn_def case_prod_unfold Let_def split: ending.splits)

lemma reconnect_loop_keeps_disconnected:
  "connected_field w = Some (JBool False) \<Longrightarrow>
   connected_field (fst (snd (reconnect_loop e ss w))) = Some (JBool False)"
proof (induction ss arbitrary: w)
  case Nil
  then show ?case by simp
next
  case (Cons s ss)
  obtain acts w' out where t: "turn e s w = (acts, w', out)" by (cases "turn e s w")
  have w': "connected_field w' = Some (JBool False)"
  proof (cases "stop_set s")
    case True
    with t Cons.prems show ?thesis by (simp add: turn_stop)
  next
    case False
    from turn_session(1) [OF False t] show ?thesis .
  qed
  show ?case
  proof (cases out)
    case None
    with t Cons.IH [OF w'] show ?thesis by (simp add: case_prod_unfold Let_def)
  next
    case (Some a)
    with t w' show ?thesis by simp
  qed
qed

lemma reconnect_loop_last:
  "fst (reconnect_loop e ss w) \<noteq> [] \<Longrightarrow>
   observe (last (fst (reconnect_loop e ss w))) = Merge_connected False
   \<and> connected_field (fst (snd (reconnect_loop e ss w))) = Some (JBool False)"
proof (induction ss arbitrary: w)
  case Nil
  then show ?case by simp
next
  case (Cons s ss)
  obtain acts w' out where t: "turn e s w = (acts, w', out)" by (cases "turn e s w")
  show ?case
  proof (cases "stop_set s")
    case True
    with Cons.prems show ?thesis by (simp add: turn_stop)
  next
    case False
    note ts = turn_session [OF False t]
    show ?thesis
    proof (cases out)
      case (Some a)
      with t ts show ?thesis by simp
    next
      case None
      show ?thesis
      proof (cases "fst (reconnect_loop e ss w') = []")
        case True
        with t None ts reconnect_loop_keeps_disconnected [OF ts(1), of e ss]
        show ?thesis by (simp add: case_prod_unfold Let_def)
      next
        case False
        with t None ts Cons.IH [OF False] show ?thesis by (simp add: case_prod_unfold Let_def)
      qed
    qed
  qed
qed

text \<open>
  C4.  The claim holds of the code on every way out of the loop but one.  When the stop
  event is already set as the loop is entered, the listener returns at once and merges
  nothing: on a snapshot that says \<open>connected: true\<close>, it leaves \<open>connected: true\<close>.
\<close>

theorem stop_at_entry_leaves_connected:
  "run_tiktok_listener example_env [\<lparr>stop_set = True, events = [], ending = Closes\<rparr>] stale_world
     = ([], stale_world, Stopped_at_entry)
   \<and> connected_field stale_world = Some (JBool True)"
  by (simp add: run_tiktok_listener_def example_env_def turn_def connected_field_def
      stale_world_def dict_get_def)

end
